theory Spec2Isabelle
  imports Main
begin

section \<open>The file system read by the linter\<close>

text \<open>
  \<open>lint_ft.py\<close> inspects package directories through \<open>pathlib.Path\<close>:
  \<open>iterdir\<close>, \<open>rglob("*")\<close>, \<open>is_dir\<close>, \<open>is_file\<close>, \<open>exists\<close>, \<open>stat().st_size\<close>
  and \<open>name\<close>. The disk is a tree: a regular file with its size in bytes, or a directory
  with its entries in listing order. A path is the list of its components below the root
  of that tree. Symbolic links, permissions and concurrent changes of the disk are not
  part of the model: every entry that is present can be read.
\<close>

datatype node = File nat | Dir "(string \<times> node) list"

type_synonym path = "string list"

datatype error = FileNotFoundError | NotADirectoryError | TypeError

fun resolve :: "node \<Rightarrow> path \<Rightarrow> node option" where
  "resolve n [] = Some n"
| "resolve (File sz) (c # cs) = None"
| "resolve (Dir es) (c # cs) =
     (case map_of es c of None \<Rightarrow> None | Some n \<Rightarrow> resolve n cs)"

text \<open>\<open>Path.name\<close>: the final component, empty for the root.\<close>

definition name :: "path \<Rightarrow> string" where
  "name p = (if p = [] then [] else last p)"

definition exists :: "node \<Rightarrow> path \<Rightarrow> bool" where
  "exists d p = (case resolve d p of None \<Rightarrow> False | Some n \<Rightarrow> True)"

definition is_dir :: "node \<Rightarrow> path \<Rightarrow> bool" where
  "is_dir d p = (case resolve d p of Some (Dir es) \<Rightarrow> True | _ \<Rightarrow> False)"

definition is_file :: "node \<Rightarrow> path \<Rightarrow> bool" where
  "is_file d p = (case resolve d p of Some (File sz) \<Rightarrow> True | _ \<Rightarrow> False)"

text \<open>\<open>Path.stat()\<close> raises on a path that does not exist.\<close>

definition stat :: "node \<Rightarrow> path \<Rightarrow> error + node" where
  "stat d p = (case resolve d p of None \<Rightarrow> Inl FileNotFoundError | Some n \<Rightarrow> Inr n)"

text \<open>
  \<open>Path.iterdir()\<close> raises \<open>FileNotFoundError\<close> on a missing path and
  \<open>NotADirectoryError\<close> on a regular file; otherwise it yields the children.
\<close>

definition iterdir :: "node \<Rightarrow> path \<Rightarrow> error + path list" where
  "iterdir d p =
     (case resolve d p of
        None \<Rightarrow> Inl FileNotFoundError
      | Some (File sz) \<Rightarrow> Inl NotADirectoryError
      | Some (Dir es) \<Rightarrow> Inr (map (\<lambda>e. p @ [fst e]) es))"

text \<open>
  \<open>Path.rglob("*")\<close> yields every entry strictly below the path, hidden ones included:
  the children of a directory, then what lies below each child. On a path that is not a
  directory it yields nothing and does not raise.
\<close>

fun walk :: "path \<Rightarrow> node \<Rightarrow> path list"
  and walk_all :: "path \<Rightarrow> (string \<times> node) list \<Rightarrow> path list" where
  "walk p (File sz) = []"
| "walk p (Dir es) = map (\<lambda>e. p @ [fst e]) es @ walk_all p es"
| "walk_all p [] = []"
| "walk_all p ((c, n) # es) = walk (p @ [c]) n @ walk_all p es"

definition rglob :: "node \<Rightarrow> path \<Rightarrow> path list" where
  "rglob d p = (case resolve d p of None \<Rightarrow> [] | Some n \<Rightarrow> walk p n)"

definition startswith :: "string \<Rightarrow> string \<Rightarrow> bool" where
  "startswith s pre = (take (length pre) s = pre)"

section \<open>The regular expression of the package name\<close>

text \<open>
  \<open>re.fullmatch(r"ACQ_[0-9]{4}_[0-9]{6}", folder_name)\<close>: the pattern is a sequence of
  items, each a literal character or the class \<open>[0-9]\<close>, repeated a fixed number of
  times; \<open>fullmatch\<close> succeeds when the items consume the whole string.
\<close>

datatype atom = Lit char | Digits

type_synonym regex = "(atom \<times> nat) list"

fun atom_matches :: "atom \<Rightarrow> char \<Rightarrow> bool" where
  "atom_matches (Lit c) x = (x = c)"
| "atom_matches Digits x = (x \<in> set ''0123456789'')"

fun fullmatch :: "regex \<Rightarrow> string \<Rightarrow> bool" where
  "fullmatch [] s = (s = [])"
| "fullmatch ((a, 0) # r) s = fullmatch r s"
| "fullmatch ((a, Suc k) # r) [] = False"
| "fullmatch ((a, Suc k) # r) (x # s) = (atom_matches a x \<and> fullmatch ((a, k) # r) s)"

definition ACQ_pattern :: regex where
  "ACQ_pattern =
     [(Lit CHR ''A'', 1), (Lit CHR ''C'', 1), (Lit CHR ''Q'', 1), (Lit CHR ''_'', 1),
      (Digits, 4), (Lit CHR ''_'', 1), (Digits, 6)]"

section \<open>The logger and the state of a run\<close>

text \<open>
  Every failed check calls \<open>LOGGER.error\<close> or \<open>LOGGER.warning\<close> with a formatted
  message. A message is kept as its fixed wording (one constructor per call site) and the
  values formatted into it. The state of a run is the disk, the records the logger has
  received and the lines printed so far.
\<close>

datatype level = WARNING | ERROR

datatype message =
    Does_not_conform string
  | Not_exactly_two_subfolders path
  | Subfolders_found string "string set"
  | Has_hidden_files string "path list"
  | Has_zero_bytes_file string "path list"
  | Has_unexpected_directory string "path list"
  | Metadata_has_no_files string
  | Has_nonconforming_metadata string "path list"
  | Has_incorrect_structure string "string list"
  | Has_empty_folder string "path list"

datatype line =
    Total_packages_ran nat
  | Packages_are_valid nat "string list"
  | Packages_are_invalid nat "string list"
  | Packages_need_review nat "string list"

record world =
  disk :: node
  log :: "(level \<times> message) list"
  stdout :: "line list"

definition LOGGER_error :: "message \<Rightarrow> world \<Rightarrow> world" where
  "LOGGER_error m w = w\<lparr>log := log w @ [(ERROR, m)]\<rparr>"

definition LOGGER_warning :: "message \<Rightarrow> world \<Rightarrow> world" where
  "LOGGER_warning m w = w\<lparr>log := log w @ [(WARNING, m)]\<rparr>"

definition print :: "line \<Rightarrow> world \<Rightarrow> world" where
  "print l w = w\<lparr>stdout := stdout w @ [l]\<rparr>"

section \<open>The checks\<close>

text \<open>
  A check takes the package path and the state, and gives back the value it returns, or
  the exception it raises, together with the state it leaves.
\<close>

type_synonym 'a io = "world \<Rightarrow> (error + 'a) \<times> world"

definition package_has_valid_name :: "path \<Rightarrow> bool io" where
  "package_has_valid_name package w =
     (let folder_name = name package in
      if fullmatch ACQ_pattern folder_name then (Inr True, w)
      else (Inr False, LOGGER_error (Does_not_conform folder_name) w))"

definition package_has_two_subfolders :: "path \<Rightarrow> bool io" where
  "package_has_two_subfolders package w =
     (case iterdir (disk w) package of
        Inl e \<Rightarrow> (Inl e, w)
      | Inr children \<Rightarrow>
          (let pkg_folders = filter (is_dir (disk w)) children in
           if length pkg_folders = 2 then (Inr True, w)
           else (Inr False, LOGGER_error (Not_exactly_two_subfolders package) w)))"

definition package_has_valid_subfolder_names :: "path \<Rightarrow> bool io" where
  "package_has_valid_subfolder_names package w =
     (case iterdir (disk w) package of
        Inl e \<Rightarrow> (Inl e, w)
      | Inr children \<Rightarrow>
          (let expected = set [''objects'', ''metadata''];
               found = set (map name children) in
           if expected = found then (Inr True, w)
           else (Inr False, LOGGER_error (Subfolders_found (name package) found) w)))"

definition package_has_no_hidden_file :: "path \<Rightarrow> bool io" where
  "package_has_no_hidden_file package w =
     (let hidden_ls =
            filter (\<lambda>h. startswith (name h) ''.'' \<or> startswith (name h) ''Thumbs'')
              (rglob (disk w) package) in
      if hidden_ls \<noteq> [] then
        (Inr False, LOGGER_warning (Has_hidden_files (name package) hidden_ls) w)
      else (Inr True, w))"

text \<open>
  The comprehension \<open>[f for f in all_file if f.stat().st_size == 0]\<close>: \<open>stat\<close> may
  raise, which ends the comprehension. The size read is that of a regular file, the only
  kind of entry in \<open>all_file\<close>.
\<close>

fun zero_bytes :: "node \<Rightarrow> path list \<Rightarrow> error + path list" where
  "zero_bytes d [] = Inr []"
| "zero_bytes d (f # fs) =
     (case stat d f of
        Inl e \<Rightarrow> Inl e
      | Inr st \<Rightarrow>
          (case zero_bytes d fs of
             Inl e \<Rightarrow> Inl e
           | Inr zs \<Rightarrow> Inr (if st = File 0 then f # zs else zs)))"

definition package_has_no_zero_bytes_file :: "path \<Rightarrow> bool io" where
  "package_has_no_zero_bytes_file package w =
     (let all_file = filter (is_file (disk w)) (rglob (disk w) package) in
      case zero_bytes (disk w) all_file of
        Inl e \<Rightarrow> (Inl e, w)
      | Inr zero_bytes_ls \<Rightarrow>
          if zero_bytes_ls \<noteq> [] then
            (Inr False, LOGGER_warning (Has_zero_bytes_file (name package) zero_bytes_ls) w)
          else (Inr True, w))"

definition metadata_folder_is_flat :: "path \<Rightarrow> bool io" where
  "metadata_folder_is_flat package w =
     (let metadata_path = package @ [''metadata''] in
      case iterdir (disk w) metadata_path of
        Inl e \<Rightarrow> (Inl e, w)
      | Inr children \<Rightarrow>
          (let md_dir_ls = filter (is_dir (disk w)) children in
           if md_dir_ls \<noteq> [] then
             (Inr False, LOGGER_error (Has_unexpected_directory (name package) md_dir_ls) w)
           else (Inr True, w)))"

definition metadata_folder_has_files :: "path \<Rightarrow> bool io" where
  "metadata_folder_has_files package w =
     (let metadata_path = package @ [''metadata''];
          md_files_ls = filter (is_file (disk w)) (rglob (disk w) metadata_path) in
      if md_files_ls \<noteq> [] then (Inr True, w)
      else (Inr False, LOGGER_warning (Metadata_has_no_files (name package)) w))"

definition metadata_has_correct_naming_convention :: "path \<Rightarrow> bool io" where
  "metadata_has_correct_naming_convention package w =
     (let metadata_path = package @ [''metadata''];
          accepted_fn = [''rclone.log''];
          md_files_ls = filter (is_file (disk w)) (rglob (disk w) metadata_path);
          nonconforming = filter (\<lambda>file. name file \<notin> set accepted_fn) md_files_ls in
      if nonconforming \<noteq> [] then
        (Inr False, LOGGER_error (Has_nonconforming_metadata (name package) nonconforming) w)
      else (Inr True, w))"

definition expected_files :: "string list" where
  "expected_files = [''bag-info.txt'', ''bagit.txt'', ''manifest-md5.txt'', ''tagmanifest-md5.txt'']"

definition expected_paths :: "path \<Rightarrow> path list" where
  "expected_paths package =
     (package @ [''objects'', ''data'']) # map (\<lambda>file. package @ [''objects'', file]) expected_files"

definition objects_folder_correct_structure :: "path \<Rightarrow> bool io" where
  "objects_folder_correct_structure package w =
     (let missing = map name (filter (\<lambda>fp. \<not> exists (disk w) fp) (expected_paths package)) in
      if missing \<noteq> [] then
        (Inr False, LOGGER_error (Has_incorrect_structure (name package) missing) w)
      else (Inr True, w))"

text \<open>
  The loop \<open>for folder in folder_in_obj: if not any(folder.iterdir()): empty.append(folder)\<close>;
  \<open>iterdir\<close> may raise, which ends the loop.
\<close>

fun empty_folders :: "node \<Rightarrow> path list \<Rightarrow> error + path list" where
  "empty_folders d [] = Inr []"
| "empty_folders d (folder # rest) =
     (case iterdir d folder of
        Inl e \<Rightarrow> Inl e
      | Inr children \<Rightarrow>
          (case empty_folders d rest of
             Inl e \<Rightarrow> Inl e
           | Inr em \<Rightarrow> Inr (if children = [] then folder # em else em)))"

definition objects_folder_has_no_empty_folder :: "path \<Rightarrow> bool io" where
  "objects_folder_has_no_empty_folder package w =
     (let objects_path = package @ [''objects''];
          folder_in_obj = filter (is_dir (disk w)) (rglob (disk w) objects_path) in
      case empty_folders (disk w) folder_in_obj of
        Inl e \<Rightarrow> (Inl e, w)
      | Inr em \<Rightarrow>
          if em \<noteq> [] then (Inr False, LOGGER_error (Has_empty_folder (name package) em) w)
          else (Inr True, w))"

section \<open>The verdict of a package\<close>

text \<open>
  \<open>lint_package\<close> runs two loops over lists of checks. A check that returns \<open>False\<close>
  overwrites \<open>result\<close> with the label of its list; a check that raises ends the call.
\<close>

fun run_tests :: "(path \<Rightarrow> bool io) list \<Rightarrow> string \<Rightarrow> path \<Rightarrow> string \<Rightarrow> string io" where
  "run_tests [] label package result w = (Inr result, w)"
| "run_tests (test # tests) label package result w =
     (case test package w of
        (Inl e, w') \<Rightarrow> (Inl e, w')
      | (Inr ok, w') \<Rightarrow> run_tests tests label package (if \<not> ok then label else result) w')"

definition less_strict_tests :: "(path \<Rightarrow> bool io) list" where
  "less_strict_tests =
     [package_has_no_hidden_file, package_has_no_zero_bytes_file, metadata_folder_has_files]"

definition strict_tests :: "(path \<Rightarrow> bool io) list" where
  "strict_tests =
     [package_has_valid_name, package_has_two_subfolders, package_has_valid_subfolder_names,
      metadata_folder_is_flat, metadata_has_correct_naming_convention,
      objects_folder_correct_structure, objects_folder_has_no_empty_folder]"

definition lint_package :: "path \<Rightarrow> string io" where
  "lint_package package w =
     (case run_tests less_strict_tests ''needs review'' package ''valid'' w of
        (Inl e, w') \<Rightarrow> (Inl e, w')
      | (Inr result, w') \<Rightarrow> run_tests strict_tests ''invalid'' package result w')"

section \<open>The batch run\<close>

text \<open>
  \<open>_configure_logging(args.log_folder)\<close>, where \<open>args.log_folder\<close> is a \<open>str\<close>:
  \<open>parse_args\<close> declares \<open>--log_folder\<close> with the default \<open>'.'\<close> and no
  \<open>type\<close>. The function formats the name of the log file
  from the clock and then evaluates \<open>log_folder / log_fn\<close>. Both operands are \<open>str\<close>
  objects, for which Python has no operator \<open>/\<close>: the expression raises
  \<open>TypeError\<close>, and what follows it in the function (\<open>touch\<close>,
  \<open>logging.basicConfig\<close>) is not reached. The function is modelled for the \<open>str\<close>
  argument that \<open>main\<close> passes.
\<close>

definition configure_logging :: "string \<Rightarrow> unit io" where
  "configure_logging log_folder w = (Inl TypeError, w)"

record buckets =
  valid :: "string list"
  invalid :: "string list"
  needs_review :: "string list"
  counter :: nat

fun main_loop :: "path list \<Rightarrow> buckets \<Rightarrow> buckets io" where
  "main_loop [] b w = (Inr b, w)"
| "main_loop (package # packages) b w =
     (let b1 = b\<lparr>counter := counter b + 1\<rparr> in
      case lint_package package w of
        (Inl e, w') \<Rightarrow> (Inl e, w')
      | (Inr result, w') \<Rightarrow>
          main_loop packages
            (if result = ''valid'' then b1\<lparr>valid := valid b1 @ [name package]\<rparr>
             else if result = ''invalid'' then b1\<lparr>invalid := invalid b1 @ [name package]\<rparr>
             else b1\<lparr>needs_review := needs_review b1 @ [name package]\<rparr>)
            w')"

definition print_summary :: "buckets \<Rightarrow> world \<Rightarrow> world" where
  "print_summary b w =
     (let w1 = print (Total_packages_ran (counter b)) w;
          w2 = (if valid b \<noteq> [] then print (Packages_are_valid (length (valid b)) (valid b)) w1
                else w1);
          w3 = (if invalid b \<noteq> [] then
                  print (Packages_are_invalid (length (invalid b)) (invalid b)) w2
                else w2)
      in if needs_review b \<noteq> [] then
           print (Packages_need_review (length (needs_review b)) (needs_review b)) w3
         else w3)"

text \<open>
  \<open>parse_args\<close> gives the namespace \<open>args\<close>: \<open>packages\<close>, a list of paths of
  directories, and \<open>log_folder\<close>, a \<open>str\<close>. \<open>main\<close> configures the logger, runs
  the loop over \<open>args.packages\<close> with its three lists and its counter, and prints the
  summary. The lists and the counter are local variables of \<open>main\<close>; the model
  returns them beside the state.
\<close>

record args =
  packages :: "path list"
  log_folder :: string

definition main :: "args \<Rightarrow> buckets io" where
  "main a w =
     (case configure_logging (log_folder a) w of
        (Inl e, w0) \<Rightarrow> (Inl e, w0)
      | (Inr u, w0) \<Rightarrow>
          (case main_loop (packages a)
                  \<lparr>valid = [], invalid = [], needs_review = [], counter = 0\<rparr> w0 of
             (Inl e, w') \<Rightarrow> (Inl e, w')
           | (Inr b, w') \<Rightarrow> (Inr b, print_summary b w')))"

section \<open>Notions used in the statements\<close>

text \<open>
  The checks never read the logger or the printed lines. \<open>framed f\<close> says so for a
  computation \<open>f\<close>: what it returns and what it sends to the logger are those of a run
  on the same disk with an empty logger, and it leaves the rest of the state alone.
\<close>

definition pristine :: "node \<Rightarrow> world" where
  "pristine d = \<lparr>disk = d, log = [], stdout = []\<rparr>"

definition framed :: "'a io \<Rightarrow> bool" where
  "framed f \<longleftrightarrow>
     (\<forall>w. f w = (fst (f (pristine (disk w))),
                 w\<lparr>log := log w @ log (snd (f (pristine (disk w))))\<rparr>))"

text \<open>The records a computation adds to the logger.\<close>

definition emitted :: "'a io \<Rightarrow> world \<Rightarrow> (level \<times> message) list" where
  "emitted f w = drop (length (log w)) (log (snd (f w)))"

text \<open>
  The name convention in words: the token \<open>ACQ\<close>, an underscore, four digits, an
  underscore, six digits, and nothing else.
\<close>

definition conforms_to_ACQ :: "string \<Rightarrow> bool" where
  "conforms_to_ACQ s \<longleftrightarrow>
     (\<exists>a b. s = ''ACQ'' @ ''_'' @ a @ ''_'' @ b \<and> length a = 4 \<and> length b = 6 \<and>
            list_all (\<lambda>c. c \<in> set ''0123456789'') a \<and>
            list_all (\<lambda>c. c \<in> set ''0123456789'') b)"

text \<open>
  Sample packages. \<open>scenario_A\<close> is the well-formed package of the specification's
  scenario A; \<open>scenario_E\<close> has a payload file of zero bytes. \<open>holding n pkg\<close> is a
  fresh state whose disk holds the package \<open>pkg\<close> under the name \<open>n\<close>.
\<close>

definition scenario_A :: node where
  "scenario_A =
     Dir [(''objects'',
            Dir [(''data'', Dir [(''file.txt'', File 19)]),
                 (''bag-info.txt'', File 19), (''bagit.txt'', File 19),
                 (''manifest-md5.txt'', File 19), (''tagmanifest-md5.txt'', File 19)]),
          (''metadata'', Dir [(''rclone.log'', File 23)])]"

definition scenario_E :: node where
  "scenario_E =
     Dir [(''objects'',
            Dir [(''data'', Dir [(''file.txt'', File 0)]),
                 (''bag-info.txt'', File 19), (''bagit.txt'', File 19),
                 (''manifest-md5.txt'', File 19), (''tagmanifest-md5.txt'', File 19)]),
          (''metadata'', Dir [(''rclone.log'', File 23)])]"

definition holding :: "string \<Rightarrow> node \<Rightarrow> world" where
  "holding n pkg = \<lparr>disk = Dir [(n, pkg)], log = [], stdout = []\<rparr>"

text \<open>
  The names of the directories directly under a path, and two packages that tell them
  from the names of all entries: one with a stray regular file beside the two folders,
  one whose \<open>objects\<close> entry is a regular file.
\<close>

definition subfolder_names :: "node \<Rightarrow> path \<Rightarrow> string set" where
  "subfolder_names d p =
     (case iterdir d p of Inl e \<Rightarrow> {} | Inr children \<Rightarrow> set (map name (filter (is_dir d) children)))"

definition with_stray_file :: node where
  "with_stray_file =
     Dir [(''objects'',
            Dir [(''data'', Dir [(''file.txt'', File 19)]),
                 (''bag-info.txt'', File 19), (''bagit.txt'', File 19),
                 (''manifest-md5.txt'', File 19), (''tagmanifest-md5.txt'', File 19)]),
          (''metadata'', Dir [(''rclone.log'', File 23)]),
          (''notes.txt'', File 5)]"

definition objects_is_a_file :: node where
  "objects_is_a_file = Dir [(''objects'', File 7), (''metadata'', Dir [(''rclone.log'', File 23)])]"

text \<open>
  A package without a \<open>metadata\<close> entry, one without an \<open>objects\<close> entry, and a
  fresh state whose disk holds several packages.
\<close>

definition without_objects :: node where
  "without_objects = Dir [(''metadata'', Dir [(''rclone.log'', File 23)])]"

definition without_metadata :: node where
  "without_metadata =
     Dir [(''objects'',
            Dir [(''data'', Dir [(''file.txt'', File 19)]),
                 (''bag-info.txt'', File 19), (''bagit.txt'', File 19),
                 (''manifest-md5.txt'', File 19), (''tagmanifest-md5.txt'', File 19)])]"

definition shelf :: "(string \<times> node) list \<Rightarrow> world" where
  "shelf es = \<lparr>disk = Dir es, log = [], stdout = []\<rparr>"

section \<open>The checks only add to the logger\<close>

lemmas frame_simps = framed_def pristine_def LOGGER_error_def LOGGER_warning_def Let_def

lemma framed_valid_name: "framed (package_has_valid_name p)"
  by (simp add: frame_simps package_has_valid_name_def)

lemma framed_two: "framed (package_has_two_subfolders p)"
  by (simp add: frame_simps package_has_two_subfolders_def split: sum.split)

lemma framed_names: "framed (package_has_valid_subfolder_names p)"
  by (simp add: frame_simps package_has_valid_subfolder_names_def split: sum.split)

lemma framed_hidden: "framed (package_has_no_hidden_file p)"
  by (simp add: frame_simps package_has_no_hidden_file_def)

lemma framed_zero: "framed (package_has_no_zero_bytes_file p)"
  by (simp add: frame_simps package_has_no_zero_bytes_file_def split: sum.split)

lemma framed_flat: "framed (metadata_folder_is_flat p)"
  by (simp add: frame_simps metadata_folder_is_flat_def split: sum.split)

lemma framed_has_files: "framed (metadata_folder_has_files p)"
  by (simp add: frame_simps metadata_folder_has_files_def)

lemma framed_naming: "framed (metadata_has_correct_naming_convention p)"
  by (simp add: frame_simps metadata_has_correct_naming_convention_def)

lemma framed_structure: "framed (objects_folder_correct_structure p)"
  by (simp add: frame_simps objects_folder_correct_structure_def)

lemma framed_empty: "framed (objects_folder_has_no_empty_folder p)"
  by (simp add: frame_simps objects_folder_has_no_empty_folder_def split: sum.split)

lemma framed_at:
  assumes "framed f"
  obtains x ds where "\<And>w. disk w = d \<Longrightarrow> f w = (x, w\<lparr>log := log w @ ds\<rparr>)"
proof
  fix w :: world
  assume "disk w = d"
  then show "f w = (fst (f (pristine d)), w\<lparr>log := log w @ log (snd (f (pristine d)))\<rparr>)"
    using assms unfolding framed_def by blast
qed

lemma framedI:
  assumes "\<And>d. \<exists>x ds. \<forall>w. disk w = d \<longrightarrow> f w = (x, w\<lparr>log := log w @ ds\<rparr>)"
  shows "framed f"
  unfolding framed_def
proof
  fix w :: world
  obtain x ds where h: "\<And>v. disk v = disk w \<Longrightarrow> f v = (x, v\<lparr>log := log v @ ds\<rparr>)"
    using assms[of "disk w"] by blast
  have a: "f w = (x, w\<lparr>log := log w @ ds\<rparr>)" using h[of w] by simp
  have "disk (pristine (disk w)) = disk w" by (simp add: pristine_def)
  from h[OF this] have b: "f (pristine (disk w)) = (x, (pristine (disk w))\<lparr>log := ds\<rparr>)"
    by (simp add: pristine_def)
  show "f w = (fst (f (pristine (disk w))), w\<lparr>log := log w @ log (snd (f (pristine (disk w))))\<rparr>)"
    unfolding a b by simp
qed

lemma framed_run_tests:
  assumes "\<And>t. t \<in> set tests \<Longrightarrow> framed (t p)"
  shows "framed (run_tests tests label p r)"
  using assms
proof (induction tests arbitrary: r)
  case Nil
  show ?case by (simp add: framed_def pristine_def)
next
  case (Cons t tests)
  have t: "framed (t p)" using Cons.prems by simp
  have rest: "\<And>r'. framed (run_tests tests label p r')" using Cons by simp
  show ?case
  proof (rule framedI)
    fix d
    obtain x ds where tx: "\<And>w. disk w = d \<Longrightarrow> t p w = (x, w\<lparr>log := log w @ ds\<rparr>)"
      using framed_at[OF t] by blast
    show "\<exists>x ds. \<forall>w. disk w = d \<longrightarrow>
            run_tests (t # tests) label p r w = (x, w\<lparr>log := log w @ ds\<rparr>)"
    proof (cases x)
      case (Inl e)
      have "\<forall>w. disk w = d \<longrightarrow> run_tests (t # tests) label p r w = (Inl e, w\<lparr>log := log w @ ds\<rparr>)"
        using tx Inl by simp
      then show ?thesis by blast
    next
      case (Inr ok)
      obtain y es where ry: "\<And>w. disk w = d \<Longrightarrow>
          run_tests tests label p (if \<not> ok then label else r) w = (y, w\<lparr>log := log w @ es\<rparr>)"
        using framed_at[OF rest] by blast
      have "\<forall>w. disk w = d \<longrightarrow> run_tests (t # tests) label p r w = (y, w\<lparr>log := log w @ (ds @ es)\<rparr>)"
      proof (intro allI impI)
        fix w :: world
        assume dw: "disk w = d"
        have "disk (w\<lparr>log := log w @ ds\<rparr>) = d" using dw by simp
        from ry[OF this] show "run_tests (t # tests) label p r w = (y, w\<lparr>log := log w @ (ds @ es)\<rparr>)"
          using tx[OF dw] Inr by simp
      qed
      then show ?thesis by blast
    qed
  qed
qed

section \<open>The name pattern\<close>

lemma fullmatch_rep:
  "fullmatch ((a, k) # r) s \<longleftrightarrow>
     (\<exists>u t. s = u @ t \<and> length u = k \<and> list_all (atom_matches a) u \<and> fullmatch r t)"
proof (induction k arbitrary: s)
  case 0
  show ?case by simp
next
  case (Suc k)
  show ?case
  proof (cases s)
    case Nil
    then show ?thesis by simp
  next
    case (Cons x s')
    show ?thesis
    proof
      assume "fullmatch ((a, Suc k) # r) s"
      then have x: "atom_matches a x" and "fullmatch ((a, k) # r) s'"
        using Cons by simp_all
      then obtain u t where "s' = u @ t" "length u = k" "list_all (atom_matches a) u" "fullmatch r t"
        using Suc.IH by blast
      then have "s = (x # u) @ t \<and> length (x # u) = Suc k \<and> list_all (atom_matches a) (x # u) \<and> fullmatch r t"
        using Cons x by simp
      then show "\<exists>u t. s = u @ t \<and> length u = Suc k \<and> list_all (atom_matches a) u \<and> fullmatch r t"
        by blast
    next
      assume "\<exists>u t. s = u @ t \<and> length u = Suc k \<and> list_all (atom_matches a) u \<and> fullmatch r t"
      then obtain u t where h: "s = u @ t" "length u = Suc k" "list_all (atom_matches a) u" "fullmatch r t"
        by blast
      then obtain y u' where u: "u = y # u'" by (cases u) simp_all
      have "fullmatch ((a, k) # r) s'"
        using Suc.IH[of s'] h u Cons by auto
      then show "fullmatch ((a, Suc k) # r) s"
        using h u Cons by simp
    qed
  qed
qed

lemma fullmatch_lit:
  "fullmatch ((Lit c, Suc 0) # r) s \<longleftrightarrow> (\<exists>t. s = c # t \<and> fullmatch r t)"
  by (cases s) simp_all

lemma fullmatch_ACQ: "fullmatch ACQ_pattern s \<longleftrightarrow> conforms_to_ACQ s"
proof -
  have "fullmatch ACQ_pattern s \<longleftrightarrow>
        (\<exists>t. s = ''ACQ_'' @ t \<and> fullmatch [(Digits, 4), (Lit CHR ''_'', 1), (Digits, 6)] t)"
    unfolding ACQ_pattern_def by (auto simp: fullmatch_lit)
  also have "\<dots> \<longleftrightarrow> (\<exists>a t'. s = ''ACQ_'' @ a @ t' \<and> length a = 4 \<and> list_all (atom_matches Digits) a \<and>
        fullmatch [(Lit CHR ''_'', 1), (Digits, 6)] t')"
    by (subst fullmatch_rep) blast
  also have "\<dots> \<longleftrightarrow> (\<exists>a t''. s = ''ACQ_'' @ a @ ''_'' @ t'' \<and> length a = 4 \<and> list_all (atom_matches Digits) a \<and>
        fullmatch [(Digits, 6)] t'')"
    by (auto simp: fullmatch_lit)
  also have "\<dots> \<longleftrightarrow> (\<exists>a b. s = ''ACQ_'' @ a @ ''_'' @ b \<and> length a = 4 \<and> list_all (atom_matches Digits) a \<and>
        length b = 6 \<and> list_all (atom_matches Digits) b)"
    by (subst fullmatch_rep) auto
  also have "\<dots> \<longleftrightarrow> conforms_to_ACQ s"
    unfolding conforms_to_ACQ_def by (auto simp: list_all_iff)
  finally show ?thesis .
qed

section \<open>The loops over the checks\<close>

lemma framed_eq:
  assumes "framed f"
  shows "f w = (fst (f w), w\<lparr>log := log w @ emitted f w\<rparr>)"
proof -
  obtain x ds where "\<And>v. disk v = disk w \<Longrightarrow> f v = (x, v\<lparr>log := log v @ ds\<rparr>)"
    using framed_at[OF assms] by blast
  then have "f w = (x, w\<lparr>log := log w @ ds\<rparr>)" by simp
  then show ?thesis by (simp add: emitted_def)
qed

lemma framed_same_disk:
  assumes "framed f" and "disk w' = disk w"
  shows "fst (f w') = fst (f w) \<and> emitted f w' = emitted f w"
proof -
  obtain x ds where h: "\<And>v. disk v = disk w \<Longrightarrow> f v = (x, v\<lparr>log := log v @ ds\<rparr>)"
    using framed_at[OF assms(1)] by blast
  have "f w = (x, w\<lparr>log := log w @ ds\<rparr>)" using h by simp
  moreover have "f w' = (x, w'\<lparr>log := log w' @ ds\<rparr>)" using h assms(2) by simp
  ultimately show ?thesis by (simp add: emitted_def)
qed

lemma framed_state:
  assumes "framed f"
  shows "disk (snd (f w)) = disk w \<and> stdout (snd (f w)) = stdout w \<and>
         log (snd (f w)) = log w @ emitted f w"
  by (subst (1 2 3) framed_eq[OF assms]) simp

lemma run_tests_step:
  assumes "framed (t p)"
  shows "run_tests (t # tests) label p r w =
     (case fst (t p w) of
        Inl e \<Rightarrow> (Inl e, w\<lparr>log := log w @ emitted (t p) w\<rparr>)
      | Inr ok \<Rightarrow> run_tests tests label p (if \<not> ok then label else r)
                    (w\<lparr>log := log w @ emitted (t p) w\<rparr>))"
proof -
  have "run_tests (t # tests) label p r w =
     (case (fst (t p w), w\<lparr>log := log w @ emitted (t p) w\<rparr>) of
        (Inl e, w') \<Rightarrow> (Inl e, w')
      | (Inr ok, w') \<Rightarrow> run_tests tests label p (if \<not> ok then label else r) w')"
    using framed_eq[OF assms, of w] by simp
  then show ?thesis by (simp split: sum.split)
qed

lemma run_tests_result:
  assumes "\<And>t. t \<in> set tests \<Longrightarrow> framed (t p)"
  shows "fst (run_tests tests label p r w) = Inr v \<longleftrightarrow>
           (\<forall>t\<in>set tests. \<exists>b. fst (t p w) = Inr b) \<and>
           v = (if \<exists>t\<in>set tests. fst (t p w) = Inr False then label else r)"
  using assms
proof (induction tests arbitrary: r w)
  case Nil
  show ?case by auto
next
  case (Cons t tests)
  have t: "framed (t p)" using Cons.prems by simp
  have rest: "\<And>t'. t' \<in> set tests \<Longrightarrow> framed (t' p)" using Cons.prems by simp
  let ?w1 = "w\<lparr>log := log w @ emitted (t p) w\<rparr>"
  have same: "\<And>t'. t' \<in> set tests \<Longrightarrow> fst (t' p ?w1) = fst (t' p w)"
    using framed_same_disk[OF rest, of _ ?w1 w] by simp
  show ?case
  proof (cases "fst (t p w)")
    case (Inl e)
    then show ?thesis by (auto simp: run_tests_step[where t=t and p=p, OF t] simp del: run_tests.simps(2))
  next
    case (Inr ok)
    have "fst (run_tests (t # tests) label p r w) =
          fst (run_tests tests label p (if \<not> ok then label else r) ?w1)"
      using Inr by (simp add: run_tests_step[where t=t and p=p, OF t] del: run_tests.simps(2))
    moreover have "fst (run_tests tests label p (if \<not> ok then label else r) ?w1) = Inr v \<longleftrightarrow>
           (\<forall>t\<in>set tests. \<exists>b. fst (t p ?w1) = Inr b) \<and>
           v = (if \<exists>t\<in>set tests. fst (t p ?w1) = Inr False then label
                else (if \<not> ok then label else r))"
      by (rule Cons.IH) (rule rest)
    ultimately show ?thesis
      using Inr same by (cases ok) auto
  qed
qed

lemma run_tests_emitted:
  assumes "\<And>t. t \<in> set tests \<Longrightarrow> framed (t p)"
    and "\<forall>t\<in>set tests. \<exists>b. fst (t p w) = Inr b"
  shows "emitted (run_tests tests label p r) w = concat (map (\<lambda>t. emitted (t p) w) tests)"
  using assms
proof (induction tests arbitrary: r w)
  case Nil
  show ?case by (simp add: emitted_def)
next
  case (Cons t tests)
  have t: "framed (t p)" using Cons.prems by simp
  have rest: "\<And>t'. t' \<in> set tests \<Longrightarrow> framed (t' p)" using Cons.prems by simp
  let ?w1 = "w\<lparr>log := log w @ emitted (t p) w\<rparr>"
  have same: "\<And>t'. t' \<in> set tests \<Longrightarrow>
      fst (t' p ?w1) = fst (t' p w) \<and> emitted (t' p) ?w1 = emitted (t' p) w"
    using framed_same_disk[OF rest, of _ ?w1 w] by simp
  obtain ok where ok: "fst (t p w) = Inr ok" using Cons.prems(2) by auto
  let ?r1 = "if \<not> ok then label else r"
  have ret: "\<forall>t'\<in>set tests. \<exists>b. fst (t' p ?w1) = Inr b"
    using Cons.prems(2) same by simp
  have step: "run_tests (t # tests) label p r w = run_tests tests label p ?r1 ?w1"
    using ok by (simp add: run_tests_step[where t=t and p=p, OF t] del: run_tests.simps(2))
  have fr: "framed (run_tests tests label p ?r1)"
    using framed_run_tests rest by blast
  have a: "log (snd (run_tests (t # tests) label p r w)) =
        log ?w1 @ emitted (run_tests tests label p ?r1) ?w1"
    unfolding step using framed_state[OF fr] by blast
  have "emitted (run_tests (t # tests) label p r) w =
        emitted (t p) w @ emitted (run_tests tests label p ?r1) ?w1"
    unfolding emitted_def[of "run_tests (t # tests) label p r" w] a by simp
  also have "emitted (run_tests tests label p ?r1) ?w1 = concat (map (\<lambda>t'. emitted (t' p) ?w1) tests)"
    by (rule Cons.IH) (use rest ret in blast)+
  also have "\<dots> = concat (map (\<lambda>t'. emitted (t' p) w) tests)"
    using same by (simp cong: map_cong)
  finally show ?case by simp
qed

lemma framed_tests:
  "t \<in> set (less_strict_tests @ strict_tests) \<Longrightarrow> framed (t p)"
  unfolding less_strict_tests_def strict_tests_def
  using framed_valid_name framed_two framed_names framed_hidden framed_zero framed_flat
    framed_has_files framed_naming framed_structure framed_empty
  by auto

lemma framed_less_strict: "framed (run_tests less_strict_tests label p r)"
  by (rule framed_run_tests) (simp add: framed_tests)

lemma framed_strict: "framed (run_tests strict_tests label p r)"
  by (rule framed_run_tests) (simp add: framed_tests)

lemma lint_package_step:
  "lint_package p w =
     (case fst (run_tests less_strict_tests ''needs review'' p ''valid'' w) of
        Inl e \<Rightarrow> (Inl e, w\<lparr>log := log w @ emitted (run_tests less_strict_tests ''needs review'' p ''valid'') w\<rparr>)
      | Inr r \<Rightarrow> run_tests strict_tests ''invalid'' p r
                  (w\<lparr>log := log w @ emitted (run_tests less_strict_tests ''needs review'' p ''valid'') w\<rparr>))"
proof -
  let ?f = "run_tests less_strict_tests ''needs review'' p ''valid''"
  have "lint_package p w =
     (case (fst (?f w), w\<lparr>log := log w @ emitted ?f w\<rparr>) of
        (Inl e, w') \<Rightarrow> (Inl e, w')
      | (Inr r, w') \<Rightarrow> run_tests strict_tests ''invalid'' p r w')"
    unfolding lint_package_def using framed_eq[OF framed_less_strict, of "''needs review''" p "''valid''" w]
    by simp
  then show ?thesis by (simp split: sum.split)
qed

lemma framed_lint_package: "framed (lint_package p)"
proof (rule framedI)
  fix d
  let ?f = "run_tests less_strict_tests ''needs review'' p ''valid''"
  obtain x ds where fx: "\<And>w. disk w = d \<Longrightarrow> ?f w = (x, w\<lparr>log := log w @ ds\<rparr>)"
    using framed_at[OF framed_less_strict] by blast
  show "\<exists>x ds. \<forall>w. disk w = d \<longrightarrow> lint_package p w = (x, w\<lparr>log := log w @ ds\<rparr>)"
  proof (cases x)
    case (Inl e)
    have "\<forall>w. disk w = d \<longrightarrow> lint_package p w = (Inl e, w\<lparr>log := log w @ ds\<rparr>)"
      using fx Inl by (simp add: lint_package_def)
    then show ?thesis by blast
  next
    case (Inr r)
    obtain y es where gy: "\<And>w. disk w = d \<Longrightarrow>
        run_tests strict_tests ''invalid'' p r w = (y, w\<lparr>log := log w @ es\<rparr>)"
      using framed_at[OF framed_strict] by blast
    have "\<forall>w. disk w = d \<longrightarrow> lint_package p w = (y, w\<lparr>log := log w @ (ds @ es)\<rparr>)"
    proof (intro allI impI)
      fix w :: world
      assume dw: "disk w = d"
      have "disk (w\<lparr>log := log w @ ds\<rparr>) = d" using dw by simp
      from gy[OF this] show "lint_package p w = (y, w\<lparr>log := log w @ (ds @ es)\<rparr>)"
        using fx[OF dw] Inr by (simp add: lint_package_def)
    qed
    then show ?thesis by blast
  qed
qed

lemma lint_package_result:
  "fst (lint_package p w) = Inr v \<longleftrightarrow>
     (\<forall>t\<in>set (less_strict_tests @ strict_tests). \<exists>b. fst (t p w) = Inr b) \<and>
     v = (if \<exists>t\<in>set strict_tests. fst (t p w) = Inr False then ''invalid''
          else if \<exists>t\<in>set less_strict_tests. fst (t p w) = Inr False then ''needs review''
          else ''valid'')"
proof -
  let ?f = "run_tests less_strict_tests ''needs review'' p ''valid''"
  let ?w1 = "w\<lparr>log := log w @ emitted ?f w\<rparr>"
  have fl: "\<And>t. t \<in> set less_strict_tests \<Longrightarrow> framed (t p)" by (simp add: framed_tests)
  have fs: "\<And>t. t \<in> set strict_tests \<Longrightarrow> framed (t p)" by (simp add: framed_tests)
  have same: "\<And>t. t \<in> set strict_tests \<Longrightarrow> fst (t p ?w1) = fst (t p w)"
    using framed_same_disk[OF fs, of _ ?w1 w] by simp
  have lres: "\<And>r. fst (?f w) = Inr r \<longleftrightarrow>
       (\<forall>t\<in>set less_strict_tests. \<exists>b. fst (t p w) = Inr b) \<and>
       r = (if \<exists>t\<in>set less_strict_tests. fst (t p w) = Inr False then ''needs review''
            else ''valid'')"
    by (rule run_tests_result) (rule fl)
  show ?thesis
  proof (cases "fst (?f w)")
    case (Inl e)
    have "\<not> (\<forall>t\<in>set less_strict_tests. \<exists>b. fst (t p w) = Inr b)"
      using lres Inl by auto
    then show ?thesis using Inl by (auto simp: lint_package_step)
  next
    case (Inr r)
    have l: "(\<forall>t\<in>set less_strict_tests. \<exists>b. fst (t p w) = Inr b) \<and>
       r = (if \<exists>t\<in>set less_strict_tests. fst (t p w) = Inr False then ''needs review'' else ''valid'')"
      using lres[of r] Inr by simp
    have "fst (lint_package p w) = fst (run_tests strict_tests ''invalid'' p r ?w1)"
      using Inr by (simp add: lint_package_step)
    moreover have "fst (run_tests strict_tests ''invalid'' p r ?w1) = Inr v \<longleftrightarrow>
           (\<forall>t\<in>set strict_tests. \<exists>b. fst (t p ?w1) = Inr b) \<and>
           v = (if \<exists>t\<in>set strict_tests. fst (t p ?w1) = Inr False then ''invalid'' else r)"
      by (rule run_tests_result) (rule fs)
    ultimately show ?thesis using l same by auto
  qed
qed

section \<open>When the checks return\<close>

lemma iterdir_Inr_iff: "(\<exists>cs. iterdir d p = Inr cs) \<longleftrightarrow> is_dir d p"
  by (simp add: iterdir_def is_dir_def split: option.split node.split)

lemma zero_bytes_files:
  "\<forall>f\<in>set fs. is_file d f \<Longrightarrow>
   zero_bytes d fs = Inr (filter (\<lambda>f. resolve d f = Some (File 0)) fs)"
  by (induction fs) (auto simp: stat_def is_file_def split: option.splits node.splits)

lemma empty_folders_dirs:
  "\<forall>f\<in>set fs. is_dir d f \<Longrightarrow>
   empty_folders d fs = Inr (filter (\<lambda>f. iterdir d f = Inr []) fs)"
  by (induction fs) (auto simp: iterdir_def is_dir_def split: option.splits node.splits)

lemma hidden_returns: "\<exists>b. fst (package_has_no_hidden_file p w) = Inr b"
  by (auto simp: package_has_no_hidden_file_def Let_def)

lemma zero_returns: "\<exists>b. fst (package_has_no_zero_bytes_file p w) = Inr b"
  by (auto simp: package_has_no_zero_bytes_file_def Let_def zero_bytes_files)

lemma has_files_returns: "\<exists>b. fst (metadata_folder_has_files p w) = Inr b"
  by (auto simp: metadata_folder_has_files_def Let_def)

lemma valid_name_returns: "\<exists>b. fst (package_has_valid_name p w) = Inr b"
  by (auto simp: package_has_valid_name_def Let_def)

lemma two_returns: "(\<exists>b. fst (package_has_two_subfolders p w) = Inr b) \<longleftrightarrow> is_dir (disk w) p"
  unfolding iterdir_Inr_iff[symmetric]
  by (cases "iterdir (disk w) p") (auto simp: package_has_two_subfolders_def Let_def)

lemma names_returns:
  "(\<exists>b. fst (package_has_valid_subfolder_names p w) = Inr b) \<longleftrightarrow> is_dir (disk w) p"
  unfolding iterdir_Inr_iff[symmetric]
  by (cases "iterdir (disk w) p") (auto simp: package_has_valid_subfolder_names_def Let_def)

lemma flat_returns:
  "(\<exists>b. fst (metadata_folder_is_flat p w) = Inr b) \<longleftrightarrow> is_dir (disk w) (p @ [''metadata''])"
  unfolding iterdir_Inr_iff[symmetric]
  by (cases "iterdir (disk w) (p @ [''metadata''])") (auto simp: metadata_folder_is_flat_def Let_def)

lemma naming_returns: "\<exists>b. fst (metadata_has_correct_naming_convention p w) = Inr b"
  by (auto simp: metadata_has_correct_naming_convention_def Let_def)

lemma structure_returns: "\<exists>b. fst (objects_folder_correct_structure p w) = Inr b"
  by (auto simp: objects_folder_correct_structure_def Let_def)

lemma empty_returns: "\<exists>b. fst (objects_folder_has_no_empty_folder p w) = Inr b"
  by (auto simp: objects_folder_has_no_empty_folder_def Let_def empty_folders_dirs)

lemma tests_return_iff:
  "(\<forall>t\<in>set (less_strict_tests @ strict_tests). \<exists>b. fst (t p w) = Inr b) \<longleftrightarrow>
     is_dir (disk w) p \<and> is_dir (disk w) (p @ [''metadata''])"
  unfolding less_strict_tests_def strict_tests_def
  using hidden_returns[of p w] zero_returns[of p w] has_files_returns[of p w]
    valid_name_returns[of p w] two_returns[of p w] names_returns[of p w] flat_returns[of p w]
    naming_returns[of p w] structure_returns[of p w] empty_returns[of p w]
  by simp

lemma lint_package_returns_iff:
  "(\<exists>v. fst (lint_package p w) = Inr v) \<longleftrightarrow>
     is_dir (disk w) p \<and> is_dir (disk w) (p @ [''metadata''])"
  unfolding lint_package_result tests_return_iff by simp

section \<open>Reading the disk and repeating a run\<close>

lemma framed_disk: "framed f \<Longrightarrow> disk (snd (f w)) = disk w"
  using framed_state by blast

text \<open>
  C9: evaluating \<open>lint_package\<close> leaves the disk as it was, and so does each of the
  ten checks on its own: they list directories and read file sizes, and change nothing
  under the package directory. The logger's sink is not on the modelled disk.
\<close>

theorem lint_package_reads_only:
  "disk (snd (lint_package p w)) = disk w \<and>
   disk (snd (package_has_no_hidden_file p w)) = disk w \<and>
   disk (snd (package_has_no_zero_bytes_file p w)) = disk w \<and>
   disk (snd (metadata_folder_has_files p w)) = disk w \<and>
   disk (snd (package_has_valid_name p w)) = disk w \<and>
   disk (snd (package_has_two_subfolders p w)) = disk w \<and>
   disk (snd (package_has_valid_subfolder_names p w)) = disk w \<and>
   disk (snd (metadata_folder_is_flat p w)) = disk w \<and>
   disk (snd (metadata_has_correct_naming_convention p w)) = disk w \<and>
   disk (snd (objects_folder_correct_structure p w)) = disk w \<and>
   disk (snd (objects_folder_has_no_empty_folder p w)) = disk w"
  by (simp add: framed_disk framed_lint_package framed_hidden framed_zero framed_has_files
      framed_valid_name framed_two framed_names framed_flat framed_naming framed_structure
      framed_empty)

text \<open>
  C8: the verdict and the diagnostics of \<open>lint_package\<close> depend on the disk alone.
  Two evaluations on states with the same disk, whatever the logger already holds, give
  the same result and send the same records to the logger; in particular a second
  evaluation right after the first repeats it.
\<close>

theorem lint_package_idempotent:
  "(disk w' = disk w \<longrightarrow>
      fst (lint_package p w') = fst (lint_package p w) \<and>
      emitted (lint_package p) w' = emitted (lint_package p) w) \<and>
   fst (lint_package p (snd (lint_package p w))) = fst (lint_package p w) \<and>
   emitted (lint_package p) (snd (lint_package p w)) = emitted (lint_package p) w"
proof -
  have "disk (snd (lint_package p w)) = disk w"
    using framed_state[OF framed_lint_package] by blast
  then show ?thesis
    using framed_same_disk[OF framed_lint_package] by blast
qed

text \<open>
  The package of scenario E evaluated in a state whose logger already holds a record:
  the verdict and the single warning are those of a fresh state.
\<close>

theorem lint_package_idempotent_witness:
  "disk ((holding ''ACQ_1234_123456'' scenario_E)\<lparr>log := [(WARNING, Metadata_has_no_files ''x'')]\<rparr>)
     = disk (holding ''ACQ_1234_123456'' scenario_E) \<and>
   fst (lint_package [''ACQ_1234_123456'']
          ((holding ''ACQ_1234_123456'' scenario_E)\<lparr>log := [(WARNING, Metadata_has_no_files ''x'')]\<rparr>))
     = Inr ''needs review'' \<and>
   emitted (lint_package [''ACQ_1234_123456''])
          ((holding ''ACQ_1234_123456'' scenario_E)\<lparr>log := [(WARNING, Metadata_has_no_files ''x'')]\<rparr>)
     = [(WARNING, Has_zero_bytes_file ''ACQ_1234_123456''
                    [[''ACQ_1234_123456'', ''objects'', ''data'', ''file.txt'']])]"
proof -
  let ?w = "holding ''ACQ_1234_123456'' scenario_E"
  let ?w' = "?w\<lparr>log := [(WARNING, Metadata_has_no_files ''x'')]\<rparr>"
  have d: "disk ?w' = disk ?w" by simp
  have v: "fst (lint_package [''ACQ_1234_123456''] ?w) = Inr ''needs review''"
    by code_simp
  have e: "emitted (lint_package [''ACQ_1234_123456'']) ?w =
      [(WARNING, Has_zero_bytes_file ''ACQ_1234_123456''
                    [[''ACQ_1234_123456'', ''objects'', ''data'', ''file.txt'']])]"
    by code_simp
  show ?thesis
    using lint_package_idempotent[of ?w' ?w "[''ACQ_1234_123456'']"] d v e by simp
qed

section \<open>The single checks\<close>

text \<open>
  Where \<open>lint_package\<close> returns a verdict for a package whose name does not conform,
  the verdict is \<open>invalid\<close>; it returns one when the package and its \<open>metadata\<close>
  entry are directories.
\<close>

lemma nonconforming_name_verdict:
  assumes "\<not> fullmatch ACQ_pattern (name p)"
  shows "(fst (lint_package p w) = Inr v \<longrightarrow> v = ''invalid'') \<and>
         (is_dir (disk w) p \<and> is_dir (disk w) (p @ [''metadata'']) \<longrightarrow>
            fst (lint_package p w) = Inr ''invalid'')"
proof -
  have "fst (package_has_valid_name p w) = Inr False"
    using assms by (simp add: package_has_valid_name_def Let_def)
  then have f: "\<exists>t\<in>set strict_tests. fst (t p w) = Inr False"
    by (auto simp: strict_tests_def)
  have c: "\<And>u. fst (lint_package p w) = Inr u \<Longrightarrow> u = ''invalid''"
    using f by (simp add: lint_package_result)
  then show ?thesis using lint_package_returns_iff[of p w] by blast
qed

text \<open>
  C4: \<open>package_has_valid_name\<close> always returns, and returns \<open>True\<close> exactly when
  the whole directory name is \<open>ACQ\<close>, an underscore, four digits, an underscore and six
  digits; the lower-case name \<open>acq_1234_123456\<close> does not conform, and the well-formed
  package of scenario B under that name gets the verdict \<open>invalid\<close>. The verdict is
  not forced for every package: under the same name a package without a \<open>metadata\<close>
  entry fails the name check, and \<open>lint_package\<close> ends with \<open>FileNotFoundError\<close>
  instead of returning \<open>invalid\<close>.
\<close>

theorem package_has_valid_name_iff:
  "fst (package_has_valid_name p w) = Inr (conforms_to_ACQ (name p)) \<and>
   \<not> conforms_to_ACQ ''acq_1234_123456'' \<and>
   fst (lint_package [''acq_1234_123456''] (holding ''acq_1234_123456'' scenario_A))
     = Inr ''invalid'' \<and>
   fst (package_has_valid_name [''acq_1234_123456'']
          (holding ''acq_1234_123456'' without_metadata)) = Inr False \<and>
   fst (lint_package [''acq_1234_123456''] (holding ''acq_1234_123456'' without_metadata))
     = Inl FileNotFoundError"
proof -
  have a: "fst (package_has_valid_name p w) = Inr (conforms_to_ACQ (name p))"
    by (simp add: package_has_valid_name_def Let_def fullmatch_ACQ)
  have "\<not> fullmatch ACQ_pattern ''acq_1234_123456''" by code_simp
  then have b: "\<not> conforms_to_ACQ ''acq_1234_123456''" by (simp add: fullmatch_ACQ)
  have c: "fst (lint_package [''acq_1234_123456''] (holding ''acq_1234_123456'' scenario_A))
      = Inr ''invalid''"
    by code_simp
  have d: "fst (package_has_valid_name [''acq_1234_123456'']
          (holding ''acq_1234_123456'' without_metadata)) = Inr False"
    by code_simp
  have e: "fst (lint_package [''acq_1234_123456''] (holding ''acq_1234_123456'' without_metadata))
      = Inl FileNotFoundError"
    by code_simp
  show ?thesis using a b c d e by blast
qed

text \<open>
  C6: \<open>objects_folder_correct_structure\<close> always returns, and returns \<open>True\<close> exactly
  when the five paths \<open>objects/data\<close>, \<open>objects/bag-info.txt\<close>, \<open>objects/bagit.txt\<close>,
  \<open>objects/manifest-md5.txt\<close> and \<open>objects/tagmanifest-md5.txt\<close> exist; when it fails
  it logs one error that lists the names of the missing ones, in that order.
\<close>

theorem objects_folder_correct_structure_iff:
  "fst (objects_folder_correct_structure p w) =
     Inr (exists (disk w) (p @ [''objects'', ''data'']) \<and>
          exists (disk w) (p @ [''objects'', ''bag-info.txt'']) \<and>
          exists (disk w) (p @ [''objects'', ''bagit.txt'']) \<and>
          exists (disk w) (p @ [''objects'', ''manifest-md5.txt'']) \<and>
          exists (disk w) (p @ [''objects'', ''tagmanifest-md5.txt''])) \<and>
   emitted (objects_folder_correct_structure p) w =
     (if fst (objects_folder_correct_structure p w) = Inr True then []
      else [(ERROR, Has_incorrect_structure (name p)
               (filter (\<lambda>n. \<not> exists (disk w) (p @ [''objects'', n]))
                  [''data'', ''bag-info.txt'', ''bagit.txt'', ''manifest-md5.txt'',
                   ''tagmanifest-md5.txt'']))])"
  by (simp add: objects_folder_correct_structure_def expected_paths_def expected_files_def
      emitted_def LOGGER_error_def name_def Let_def)

lemma walk_longer:
  "q \<in> set (walk p n) \<Longrightarrow> length p < length q"
  "q \<in> set (walk_all p es) \<Longrightarrow> length p < length q"
  by (induction p n and p es arbitrary: q and q rule: walk_walk_all.induct) (auto intro: Suc_lessD)

text \<open>
  C10: \<open>rglob\<close> never yields the \<open>objects\<close> directory itself, so it is not among the
  folders tested for emptiness; when \<open>objects\<close> exists and has no entries,
  \<open>objects_folder_has_no_empty_folder\<close> returns \<open>True\<close> and logs nothing.
\<close>

theorem objects_folder_has_no_empty_folder_empty_objects:
  "p @ [''objects''] \<notin> set (rglob (disk w) (p @ [''objects''])) \<and>
   (resolve (disk w) (p @ [''objects'']) = Some (Dir []) \<longrightarrow>
      objects_folder_has_no_empty_folder p w = (Inr True, w))"
proof -
  have "p @ [''objects''] \<notin> set (rglob (disk w) (p @ [''objects'']))"
    using walk_longer(1)[of "p @ [''objects'']" "p @ [''objects'']"]
    by (auto simp: rglob_def split: option.splits)
  then show ?thesis
    by (simp add: objects_folder_has_no_empty_folder_def rglob_def)
qed

text \<open>A package whose \<open>objects\<close> and \<open>metadata\<close> directories are both empty.\<close>

theorem objects_folder_has_no_empty_folder_empty_objects_witness:
  "resolve (disk (holding ''ACQ_1234_123456'' (Dir [(''objects'', Dir []), (''metadata'', Dir [])])))
     ([''ACQ_1234_123456''] @ [''objects'']) = Some (Dir []) \<and>
   fst (objects_folder_has_no_empty_folder [''ACQ_1234_123456'']
     (holding ''ACQ_1234_123456'' (Dir [(''objects'', Dir []), (''metadata'', Dir [])]))) = Inr True"
proof -
  let ?w = "holding ''ACQ_1234_123456'' (Dir [(''objects'', Dir []), (''metadata'', Dir [])])"
  have h: "resolve (disk ?w) ([''ACQ_1234_123456''] @ [''objects'']) = Some (Dir [])"
    by (simp add: holding_def)
  show ?thesis
    using objects_folder_has_no_empty_folder_empty_objects[of "[''ACQ_1234_123456'']" ?w] h
    by simp
qed

text \<open>
  C3: \<open>package_has_valid_subfolder_names\<close> compares the names of all entries of the
  package, not of its directories. With a stray file beside \<open>objects\<close> and
  \<open>metadata\<close> the directory names are the expected set and the check returns
  \<open>False\<close>; with \<open>objects\<close> a regular file the directory names are not the expected
  set and the check returns \<open>True\<close>.
\<close>

theorem package_has_valid_subfolder_names_counts_files:
  "subfolder_names (disk (holding ''ACQ_1234_123456'' with_stray_file)) [''ACQ_1234_123456'']
     = {''objects'', ''metadata''} \<and>
   fst (package_has_valid_subfolder_names [''ACQ_1234_123456'']
          (holding ''ACQ_1234_123456'' with_stray_file)) = Inr False \<and>
   subfolder_names (disk (holding ''ACQ_1234_123456'' objects_is_a_file)) [''ACQ_1234_123456'']
     = {''metadata''} \<and>
   fst (package_has_valid_subfolder_names [''ACQ_1234_123456'']
          (holding ''ACQ_1234_123456'' objects_is_a_file)) = Inr True"
  by code_simp

section \<open>The verdict and its diagnostics\<close>

text \<open>
  C1: a package without a \<open>metadata\<close> entry fails the blocking checks
  \<open>package_has_two_subfolders\<close> and \<open>package_has_valid_subfolder_names\<close>, so the
  verdict is to be \<open>invalid\<close>. The code sets it, and then
  \<open>metadata_folder_is_flat\<close> lists the missing directory: \<open>lint_package\<close> ends with
  \<open>FileNotFoundError\<close> and returns no verdict. The package without an \<open>objects\<close>
  entry, which fails the same two checks, gets the verdict \<open>invalid\<close>.
\<close>

theorem lint_package_missing_metadata:
  "fst (package_has_two_subfolders [''ACQ_1234_123456'']
          (holding ''ACQ_1234_123456'' without_metadata)) = Inr False \<and>
   fst (package_has_valid_subfolder_names [''ACQ_1234_123456'']
          (holding ''ACQ_1234_123456'' without_metadata)) = Inr False \<and>
   fst (metadata_folder_is_flat [''ACQ_1234_123456'']
          (holding ''ACQ_1234_123456'' without_metadata)) = Inl FileNotFoundError \<and>
   fst (lint_package [''ACQ_1234_123456''] (holding ''ACQ_1234_123456'' without_metadata))
     = Inl FileNotFoundError \<and>
   fst (lint_package [''ACQ_1234_123456''] (holding ''ACQ_1234_123456'' without_objects))
     = Inr ''invalid''"
  by code_simp

text \<open>
  Where every check returns, which is where the package and its \<open>metadata\<close> entry are
  directories, the verdict follows the rule of the two lists: \<open>invalid\<close> exactly when
  a strict check fails, \<open>needs review\<close> exactly when all strict checks pass and a less
  strict check fails, \<open>valid\<close> exactly when all ten checks pass.
\<close>

lemma lint_package_verdict:
  assumes "is_dir (disk w) p" and "is_dir (disk w) (p @ [''metadata''])"
  shows "(fst (lint_package p w) = Inr ''invalid'' \<longleftrightarrow>
            (\<exists>t\<in>set strict_tests. fst (t p w) = Inr False)) \<and>
         (fst (lint_package p w) = Inr ''needs review'' \<longleftrightarrow>
            (\<forall>t\<in>set strict_tests. fst (t p w) = Inr True) \<and>
            (\<exists>t\<in>set less_strict_tests. fst (t p w) = Inr False)) \<and>
         (fst (lint_package p w) = Inr ''valid'' \<longleftrightarrow>
            (\<forall>t\<in>set (less_strict_tests @ strict_tests). fst (t p w) = Inr True))"
proof -
  have ret: "\<forall>t\<in>set (less_strict_tests @ strict_tests). \<exists>b. fst (t p w) = Inr b"
    using assms tests_return_iff by blast
  have pass: "\<And>t. t \<in> set (less_strict_tests @ strict_tests) \<Longrightarrow>
      fst (t p w) = Inr True \<longleftrightarrow> fst (t p w) \<noteq> Inr False"
  proof -
    fix t assume "t \<in> set (less_strict_tests @ strict_tests)"
    then obtain b where "fst (t p w) = Inr b" using ret by blast
    then show "fst (t p w) = Inr True \<longleftrightarrow> fst (t p w) \<noteq> Inr False"
      by (cases b) simp_all
  qed
  let ?S = "\<exists>t\<in>set strict_tests. fst (t p w) = Inr False"
  let ?L = "\<exists>t\<in>set less_strict_tests. fst (t p w) = Inr False"
  have res: "\<And>v. fst (lint_package p w) = Inr v \<longleftrightarrow>
      v = (if ?S then ''invalid'' else if ?L then ''needs review'' else ''valid'')"
    unfolding lint_package_result using ret by blast
  have a: "fst (lint_package p w) = Inr ''invalid'' \<longleftrightarrow> ?S"
    unfolding res by simp
  have b: "fst (lint_package p w) = Inr ''needs review'' \<longleftrightarrow> \<not> ?S \<and> ?L"
    unfolding res by simp
  have c: "fst (lint_package p w) = Inr ''valid'' \<longleftrightarrow> \<not> ?S \<and> \<not> ?L"
    unfolding res by simp
  have nS: "\<not> ?S \<longleftrightarrow> (\<forall>t\<in>set strict_tests. fst (t p w) = Inr True)"
    using pass by auto
  have nL: "\<not> ?L \<longleftrightarrow> (\<forall>t\<in>set less_strict_tests. fst (t p w) = Inr True)"
    using pass by auto
  show ?thesis
    unfolding a b c nS nL by auto
qed

lemma lint_package_emitted:
  assumes "\<forall>t\<in>set (less_strict_tests @ strict_tests). \<exists>b. fst (t p w) = Inr b"
  shows "emitted (lint_package p) w =
           concat (map (\<lambda>t. emitted (t p) w) (less_strict_tests @ strict_tests))"
proof -
  let ?f = "run_tests less_strict_tests ''needs review'' p ''valid''"
  let ?w1 = "w\<lparr>log := log w @ emitted ?f w\<rparr>"
  have fl: "\<And>t. t \<in> set less_strict_tests \<Longrightarrow> framed (t p)" by (simp add: framed_tests)
  have fs: "\<And>t. t \<in> set strict_tests \<Longrightarrow> framed (t p)" by (simp add: framed_tests)
  have retl: "\<forall>t\<in>set less_strict_tests. \<exists>b. fst (t p w) = Inr b" using assms by simp
  have same: "\<And>t. t \<in> set strict_tests \<Longrightarrow>
      fst (t p ?w1) = fst (t p w) \<and> emitted (t p) ?w1 = emitted (t p) w"
    using framed_same_disk[OF fs, of _ ?w1 w] by simp
  have rets: "\<forall>t\<in>set strict_tests. \<exists>b. fst (t p ?w1) = Inr b" using assms same by simp
  have el: "emitted ?f w = concat (map (\<lambda>t. emitted (t p) w) less_strict_tests)"
    by (rule run_tests_emitted) (use fl retl in blast)+
  obtain r where r: "fst (?f w) = Inr r"
    using run_tests_result[where tests = less_strict_tests and p = p and w = w] fl retl by blast
  let ?g = "run_tests strict_tests ''invalid'' p r"
  have step: "lint_package p w = ?g ?w1"
    using r by (simp add: lint_package_step)
  have es: "emitted ?g ?w1 = concat (map (\<lambda>t. emitted (t p) ?w1) strict_tests)"
    by (rule run_tests_emitted) (use fs rets in blast)+
  also have "\<dots> = concat (map (\<lambda>t. emitted (t p) w) strict_tests)"
    using same by (simp cong: map_cong)
  finally have es': "emitted ?g ?w1 = concat (map (\<lambda>t. emitted (t p) w) strict_tests)" .
  have "log (snd (?g ?w1)) = log ?w1 @ emitted ?g ?w1"
    using framed_state[OF framed_strict] by blast
  then have "log (snd (lint_package p w)) = log w @ emitted ?f w @ emitted ?g ?w1"
    unfolding step by simp
  then have "emitted (lint_package p) w = emitted ?f w @ emitted ?g ?w1"
    unfolding emitted_def[of "lint_package p" w] by simp
  also have "\<dots> = emitted ?f w @ concat (map (\<lambda>t. emitted (t p) w) strict_tests)"
    using es' by (rule arg_cong)
  also have "\<dots> = concat (map (\<lambda>t. emitted (t p) w) less_strict_tests) @
        concat (map (\<lambda>t. emitted (t p) w) strict_tests)"
    using el by (rule arg_cong)
  finally show ?thesis by simp
qed

lemma level_hidden:
  "map fst (emitted (package_has_no_hidden_file p) w) =
     (if fst (package_has_no_hidden_file p w) = Inr False then [WARNING] else [])"
  by (simp add: emitted_def package_has_no_hidden_file_def LOGGER_warning_def Let_def)

lemma level_zero:
  "map fst (emitted (package_has_no_zero_bytes_file p) w) =
     (if fst (package_has_no_zero_bytes_file p w) = Inr False then [WARNING] else [])"
  by (simp add: emitted_def package_has_no_zero_bytes_file_def LOGGER_warning_def Let_def
      split: sum.split)

lemma level_has_files:
  "map fst (emitted (metadata_folder_has_files p) w) =
     (if fst (metadata_folder_has_files p w) = Inr False then [WARNING] else [])"
  by (simp add: emitted_def metadata_folder_has_files_def LOGGER_warning_def Let_def)

lemma level_valid_name:
  "map fst (emitted (package_has_valid_name p) w) =
     (if fst (package_has_valid_name p w) = Inr False then [ERROR] else [])"
  by (simp add: emitted_def package_has_valid_name_def LOGGER_error_def Let_def)

lemma level_two:
  "map fst (emitted (package_has_two_subfolders p) w) =
     (if fst (package_has_two_subfolders p w) = Inr False then [ERROR] else [])"
  by (simp add: emitted_def package_has_two_subfolders_def LOGGER_error_def Let_def
      split: sum.split)

lemma level_names:
  "map fst (emitted (package_has_valid_subfolder_names p) w) =
     (if fst (package_has_valid_subfolder_names p w) = Inr False then [ERROR] else [])"
  by (simp add: emitted_def package_has_valid_subfolder_names_def LOGGER_error_def Let_def
      split: sum.split)

lemma level_flat:
  "map fst (emitted (metadata_folder_is_flat p) w) =
     (if fst (metadata_folder_is_flat p w) = Inr False then [ERROR] else [])"
  by (simp add: emitted_def metadata_folder_is_flat_def LOGGER_error_def Let_def
      split: sum.split)

lemma level_naming:
  "map fst (emitted (metadata_has_correct_naming_convention p) w) =
     (if fst (metadata_has_correct_naming_convention p w) = Inr False then [ERROR] else [])"
  by (simp add: emitted_def metadata_has_correct_naming_convention_def LOGGER_error_def Let_def)

lemma level_structure:
  "map fst (emitted (objects_folder_correct_structure p) w) =
     (if fst (objects_folder_correct_structure p w) = Inr False then [ERROR] else [])"
  by (simp add: emitted_def objects_folder_correct_structure_def LOGGER_error_def Let_def)

lemma level_empty:
  "map fst (emitted (objects_folder_has_no_empty_folder p) w) =
     (if fst (objects_folder_has_no_empty_folder p w) = Inr False then [ERROR] else [])"
  by (simp add: emitted_def objects_folder_has_no_empty_folder_def LOGGER_error_def Let_def
      split: sum.split)

text \<open>
  C5, as stated, fails: the value \<open>lint_package\<close> returns is the verdict alone. Two
  packages get the same returned value \<open>invalid\<close> while the diagnostics, which go to
  the logger, differ.
\<close>

theorem lint_package_verdict_only_counterexample:
  "fst (lint_package [''acq_1234_123456'']
          (shelf [(''acq_1234_123456'', scenario_A), (''ACQ_1234_12345'', scenario_A)]))
     = Inr ''invalid'' \<and>
   fst (lint_package [''ACQ_1234_12345'']
          (shelf [(''acq_1234_123456'', scenario_A), (''ACQ_1234_12345'', scenario_A)]))
     = Inr ''invalid'' \<and>
   emitted (lint_package [''acq_1234_123456''])
          (shelf [(''acq_1234_123456'', scenario_A), (''ACQ_1234_12345'', scenario_A)])
     = [(ERROR, Does_not_conform ''acq_1234_123456'')] \<and>
   emitted (lint_package [''ACQ_1234_12345''])
          (shelf [(''acq_1234_123456'', scenario_A), (''ACQ_1234_12345'', scenario_A)])
     = [(ERROR, Does_not_conform ''ACQ_1234_12345'')]"
  by code_simp

text \<open>
  C5, amended: for every package, each check sends one record to the logger when it
  fails, a warning from a less strict check and an error from a strict one, and none
  otherwise. Whenever \<open>lint_package\<close> returns, the value returned is the verdict alone,
  one of the three, and the logger has received the records of the ten checks in the
  order of evaluation; they are not part of the value returned.
\<close>

theorem lint_package_logs_diagnostics:
  "(\<forall>t\<in>set less_strict_tests.
      map fst (emitted (t p) w) = (if fst (t p w) = Inr False then [WARNING] else [])) \<and>
   (\<forall>t\<in>set strict_tests.
      map fst (emitted (t p) w) = (if fst (t p w) = Inr False then [ERROR] else [])) \<and>
   (fst (lint_package p w) = Inr v \<longrightarrow>
      v \<in> {''valid'', ''invalid'', ''needs review''} \<and>
      log (snd (lint_package p w)) =
        log w @ concat (map (\<lambda>t. emitted (t p) w) (less_strict_tests @ strict_tests)))"
proof -
  have a: "\<forall>t\<in>set less_strict_tests.
      map fst (emitted (t p) w) = (if fst (t p w) = Inr False then [WARNING] else [])"
    unfolding less_strict_tests_def using level_hidden level_zero level_has_files by simp
  have b: "\<forall>t\<in>set strict_tests.
      map fst (emitted (t p) w) = (if fst (t p w) = Inr False then [ERROR] else [])"
    unfolding strict_tests_def
    using level_valid_name level_two level_names level_flat level_naming level_structure
      level_empty by simp
  have c: "v \<in> {''valid'', ''invalid'', ''needs review''} \<and>
      log (snd (lint_package p w)) =
        log w @ concat (map (\<lambda>t. emitted (t p) w) (less_strict_tests @ strict_tests))"
    if r: "fst (lint_package p w) = Inr v"
  proof -
    have ret: "\<forall>t\<in>set (less_strict_tests @ strict_tests). \<exists>b. fst (t p w) = Inr b"
      and v: "v \<in> {''valid'', ''invalid'', ''needs review''}"
      using r unfolding lint_package_result by (blast, simp)
    have "log (snd (lint_package p w)) = log w @ emitted (lint_package p) w"
      using framed_state[OF framed_lint_package] by blast
    then have "log (snd (lint_package p w)) =
        log w @ concat (map (\<lambda>t. emitted (t p) w) (less_strict_tests @ strict_tests))"
      using lint_package_emitted[OF ret] by simp
    then show ?thesis using v by blast
  qed
  show ?thesis using a b c by blast
qed

text \<open>
  Scenario E: the verdict is returned, the logger receives the warning of the zero-byte
  check.
\<close>

theorem lint_package_logs_diagnostics_witness:
  "fst (lint_package [''ACQ_1234_123456''] (holding ''ACQ_1234_123456'' scenario_E))
     = Inr ''needs review'' \<and>
   map fst (emitted (package_has_no_zero_bytes_file [''ACQ_1234_123456''])
              (holding ''ACQ_1234_123456'' scenario_E)) = [WARNING] \<and>
   log (snd (lint_package [''ACQ_1234_123456''] (holding ''ACQ_1234_123456'' scenario_E))) =
     log (holding ''ACQ_1234_123456'' scenario_E) @
     concat (map (\<lambda>t. emitted (t [''ACQ_1234_123456'']) (holding ''ACQ_1234_123456'' scenario_E))
               (less_strict_tests @ strict_tests))"
proof -
  let ?p = "[''ACQ_1234_123456'']"
  let ?w = "holding ''ACQ_1234_123456'' scenario_E"
  note T = lint_package_logs_diagnostics[of ?p ?w "''needs review''"]
  have v: "fst (lint_package ?p ?w) = Inr ''needs review''" by code_simp
  have z: "fst (package_has_no_zero_bytes_file ?p ?w) = Inr False" by code_simp
  have m: "package_has_no_zero_bytes_file \<in> set less_strict_tests"
    by (simp add: less_strict_tests_def)
  have l: "map fst (emitted (package_has_no_zero_bytes_file ?p) ?w) = [WARNING]"
    using T[THEN conjunct1, THEN bspec, OF m] z by simp
  have g: "log (snd (lint_package ?p ?w)) =
      log ?w @ concat (map (\<lambda>t. emitted (t ?p) ?w) (less_strict_tests @ strict_tests))"
    using T v by blast
  show ?thesis using v l g by blast
qed

section \<open>Properties of the batch run\<close>

lemma lint_package_same_disk:
  "disk w' = disk w \<Longrightarrow> fst (lint_package q w') = fst (lint_package q w)"
  using framed_same_disk[OF framed_lint_package] by blast

lemma main_loop_step:
  "main_loop (q # ps) b w =
     (case fst (lint_package q w) of
        Inl e \<Rightarrow> (Inl e, w\<lparr>log := log w @ emitted (lint_package q) w\<rparr>)
      | Inr result \<Rightarrow>
          main_loop ps
            (if result = ''valid'' then b\<lparr>counter := counter b + 1, valid := valid b @ [name q]\<rparr>
             else if result = ''invalid'' then
               b\<lparr>counter := counter b + 1, invalid := invalid b @ [name q]\<rparr>
             else b\<lparr>counter := counter b + 1, needs_review := needs_review b @ [name q]\<rparr>)
            (w\<lparr>log := log w @ emitted (lint_package q) w\<rparr>))"
proof -
  have "lint_package q w = (fst (lint_package q w), w\<lparr>log := log w @ emitted (lint_package q) w\<rparr>)"
    by (rule framed_eq[OF framed_lint_package])
  then obtain x where x: "lint_package q w = (x, w\<lparr>log := log w @ emitted (lint_package q) w\<rparr>)"
    and fx: "fst (lint_package q w) = x"
    by simp
  show ?thesis
    unfolding fx using x by (cases x) (simp_all add: Let_def)
qed

lemma main_loop_returns:
  assumes "\<forall>q\<in>set ps. \<exists>v. fst (lint_package q w) = Inr v"
  shows "fst (main_loop ps b w) =
           Inr \<lparr>valid = valid b @ map name (filter (\<lambda>q. fst (lint_package q w) = Inr ''valid'') ps),
                invalid = invalid b @ map name (filter (\<lambda>q. fst (lint_package q w) = Inr ''invalid'') ps),
                needs_review = needs_review b @
                  map name (filter (\<lambda>q. fst (lint_package q w) \<noteq> Inr ''valid'' \<and>
                                         fst (lint_package q w) \<noteq> Inr ''invalid'') ps),
                counter = counter b + length ps\<rparr> \<and>
         stdout (snd (main_loop ps b w)) = stdout w"
  using assms
proof (induction ps arbitrary: b w)
  case Nil
  show ?case by simp
next
  case (Cons q ps)
  let ?w1 = "w\<lparr>log := log w @ emitted (lint_package q) w\<rparr>"
  have same: "\<And>q'. fst (lint_package q' ?w1) = fst (lint_package q' w)"
    by (rule lint_package_same_disk) simp
  obtain v where v: "fst (lint_package q w) = Inr v" using Cons.prems by auto
  have ret: "\<forall>q'\<in>set ps. \<exists>v. fst (lint_package q' ?w1) = Inr v"
    using Cons.prems same by simp
  note IH = Cons.IH[OF ret, unfolded same]
  show ?case
    unfolding main_loop_step using IH v by (simp del: main_loop.simps)
qed

lemma main_loop_raises:
  assumes "\<exists>q\<in>set ps. \<forall>v. fst (lint_package q w) \<noteq> Inr v"
  shows "(\<exists>e. fst (main_loop ps b w) = Inl e) \<and> stdout (snd (main_loop ps b w)) = stdout w"
  using assms
proof (induction ps arbitrary: b w)
  case Nil
  then show ?case by simp
next
  case (Cons q ps)
  let ?w1 = "w\<lparr>log := log w @ emitted (lint_package q) w\<rparr>"
  have same: "\<And>q'. fst (lint_package q' ?w1) = fst (lint_package q' w)"
    by (rule lint_package_same_disk) simp
  show ?case
  proof (cases "fst (lint_package q w)")
    case (Inl e)
    then show ?thesis unfolding main_loop_step by simp
  next
    case (Inr v)
    then have "\<exists>q'\<in>set ps. \<forall>v. fst (lint_package q' ?w1) \<noteq> Inr v"
      using Cons.prems same by auto
    from Cons.IH[OF this] show ?thesis
      unfolding main_loop_step Inr by (simp del: main_loop.simps)
  qed
qed

lemma stdout_print_summary:
  "stdout (print_summary b w) =
     stdout w @ [Total_packages_ran (counter b)] @
     (if valid b \<noteq> [] then [Packages_are_valid (length (valid b)) (valid b)] else []) @
     (if invalid b \<noteq> [] then [Packages_are_invalid (length (invalid b)) (invalid b)] else []) @
     (if needs_review b \<noteq> [] then
        [Packages_need_review (length (needs_review b)) (needs_review b)] else [])"
  by (simp add: print_summary_def print_def Let_def)

lemma three_verdicts:
  assumes "fst (lint_package q w) = Inr v"
  shows "v = ''valid'' \<or> v = ''invalid'' \<or> v = ''needs review''"
  using assms unfolding lint_package_result by (simp split: if_splits)

lemma filter_needs_review:
  assumes "\<forall>q\<in>set ps. \<exists>v. fst (lint_package q w) = Inr v"
  shows "filter (\<lambda>q. fst (lint_package q w) \<noteq> Inr ''valid'' \<and>
                      fst (lint_package q w) \<noteq> Inr ''invalid'') ps =
         filter (\<lambda>q. fst (lint_package q w) = Inr ''needs review'') ps"
proof (rule filter_cong[OF refl])
  fix q assume "q \<in> set ps"
  then obtain v where v: "fst (lint_package q w) = Inr v" using assms by blast
  from three_verdicts[OF v] v
  show "(fst (lint_package q w) \<noteq> Inr ''valid'' \<and> fst (lint_package q w) \<noteq> Inr ''invalid'') =
        (fst (lint_package q w) = Inr ''needs review'')"
    by auto
qed

lemma length_three_filters:
  "length (filter (\<lambda>q. f q = Inr ''valid'') ps) + length (filter (\<lambda>q. f q = Inr ''invalid'') ps) +
   length (filter (\<lambda>q. f q \<noteq> Inr ''valid'' \<and> f q \<noteq> Inr ''invalid'') ps) = length ps"
  by (induction ps) auto

lemma run_tests_raises:
  assumes "\<And>t. t \<in> set (pre @ t0 # post) \<Longrightarrow> framed (t p)"
    and "\<forall>t\<in>set pre. \<exists>b. fst (t p w) = Inr b"
    and "fst (t0 p w) = Inl e"
  shows "fst (run_tests (pre @ t0 # post) label p r w) = Inl e"
  using assms
proof (induction pre arbitrary: r w)
  case Nil
  have "framed (t0 p)" using Nil.prems(1) by simp
  then show ?case
    using Nil.prems(3) by (simp add: run_tests_step[where t=t0 and p=p] del: run_tests.simps(2))
next
  case (Cons t pre)
  have t: "framed (t p)" using Cons.prems(1) by simp
  have t0: "framed (t0 p)" using Cons.prems(1) by simp
  have rest: "\<And>t'. t' \<in> set (pre @ t0 # post) \<Longrightarrow> framed (t' p)" using Cons.prems(1) by simp
  have pre: "\<And>t'. t' \<in> set pre \<Longrightarrow> framed (t' p)" using Cons.prems(1) by simp
  let ?w1 = "w\<lparr>log := log w @ emitted (t p) w\<rparr>"
  obtain ok where ok: "fst (t p w) = Inr ok" using Cons.prems(2) by auto
  have a: "\<forall>t'\<in>set pre. \<exists>b. fst (t' p ?w1) = Inr b"
  proof
    fix t' assume m: "t' \<in> set pre"
    have "fst (t' p ?w1) = fst (t' p w)"
      using framed_same_disk[OF pre[OF m], of ?w1 w] by simp
    then show "\<exists>b. fst (t' p ?w1) = Inr b" using Cons.prems(2) m by simp
  qed
  have b: "fst (t0 p ?w1) = Inl e"
    using framed_same_disk[OF t0, of ?w1 w] Cons.prems(3) by simp
  have "fst (run_tests (pre @ t0 # post) label p (if \<not> ok then label else r) ?w1) = Inl e"
    by (rule Cons.IH) (use rest a b in blast)+
  then show ?case
    using ok by (simp add: run_tests_step[where t=t and p=p, OF t] del: run_tests.simps(2))
qed

lemma lint_package_raises:
  assumes "is_dir (disk w) p" and "fst (metadata_folder_is_flat p w) = Inl e"
  shows "fst (lint_package p w) = Inl e"
proof -
  let ?f = "run_tests less_strict_tests ''needs review'' p ''valid''"
  let ?w1 = "w\<lparr>log := log w @ emitted ?f w\<rparr>"
  let ?pre = "[package_has_valid_name, package_has_two_subfolders, package_has_valid_subfolder_names]"
  let ?post = "[metadata_has_correct_naming_convention, objects_folder_correct_structure,
                objects_folder_has_no_empty_folder]"
  have split: "strict_tests = ?pre @ metadata_folder_is_flat # ?post"
    by (simp add: strict_tests_def)
  have fl: "\<And>t. t \<in> set less_strict_tests \<Longrightarrow> framed (t p)" by (simp add: framed_tests)
  have fs: "\<And>t. t \<in> set (?pre @ metadata_folder_is_flat # ?post) \<Longrightarrow> framed (t p)"
    unfolding split[symmetric] by (simp add: framed_tests)
  have retl: "\<forall>t\<in>set less_strict_tests. \<exists>b. fst (t p w) = Inr b"
    unfolding less_strict_tests_def
    using hidden_returns[of p w] zero_returns[of p w] has_files_returns[of p w] by simp
  obtain r where r: "fst (?f w) = Inr r"
    using run_tests_result[where tests = less_strict_tests and p = p and w = w] fl retl by blast
  have d: "disk ?w1 = disk w" by simp
  have pre: "\<forall>t\<in>set ?pre. \<exists>b. fst (t p ?w1) = Inr b"
    using valid_name_returns[of p ?w1] two_returns[of p ?w1] names_returns[of p ?w1] assms(1)
    by simp
  have flat: "fst (metadata_folder_is_flat p ?w1) = Inl e"
    using framed_same_disk[OF framed_flat d] assms(2) by simp
  have "fst (run_tests (?pre @ metadata_folder_is_flat # ?post) ''invalid'' p r ?w1) = Inl e"
    by (rule run_tests_raises) (use fs pre flat in blast)+
  then show ?thesis
    unfolding split[symmetric] using r by (simp add: lint_package_step)
qed

lemma flat_raises:
  assumes "\<not> is_dir (disk w) (p @ [''metadata''])"
  shows "\<exists>e. metadata_folder_is_flat p w = (Inl e, w)"
proof (cases "iterdir (disk w) (p @ [''metadata''])")
  case (Inl e)
  then show ?thesis by (simp add: metadata_folder_is_flat_def)
next
  case (Inr cs)
  then show ?thesis using assms iterdir_Inr_iff by blast
qed

text \<open>
  C7: called with the well-formed package of scenario A, \<open>main\<close> ends with
  \<open>TypeError\<close> in \<open>_configure_logging\<close>, before the loop: no package is put in a
  bucket and nothing is printed. The loop on its own would put the package in the bucket
  of the valid ones and count one package.
\<close>

theorem main_raises_TypeError:
  "fst (main \<lparr>packages = [[''ACQ_1234_123456'']], log_folder = ''.''\<rparr>
          (holding ''ACQ_1234_123456'' scenario_A)) = Inl TypeError \<and>
   stdout (snd (main \<lparr>packages = [[''ACQ_1234_123456'']], log_folder = ''.''\<rparr>
          (holding ''ACQ_1234_123456'' scenario_A))) = [] \<and>
   fst (main_loop [[''ACQ_1234_123456'']]
          \<lparr>valid = [], invalid = [], needs_review = [], counter = 0\<rparr>
          (holding ''ACQ_1234_123456'' scenario_A))
     = Inr \<lparr>valid = [''ACQ_1234_123456''], invalid = [], needs_review = [], counter = 1\<rparr>"
  by code_simp

text \<open>
  C2: on a package without a \<open>metadata\<close> entry \<open>metadata_folder_is_flat\<close> raises
  \<open>FileNotFoundError\<close> and sends nothing to the logger; the exception leaves
  \<open>lint_package\<close> and the loop of the batch run, and no summary is printed. On the same
  package \<open>metadata_folder_has_files\<close> does report the missing directory as a failed
  check, with a warning.
\<close>

theorem metadata_folder_is_flat_raises:
  "fst (metadata_folder_is_flat [''ACQ_2024_000001'']
          (holding ''ACQ_2024_000001'' without_metadata)) = Inl FileNotFoundError \<and>
   emitted (metadata_folder_is_flat [''ACQ_2024_000001''])
     (holding ''ACQ_2024_000001'' without_metadata) = [] \<and>
   fst (metadata_folder_has_files [''ACQ_2024_000001'']
          (holding ''ACQ_2024_000001'' without_metadata)) = Inr False \<and>
   emitted (metadata_folder_has_files [''ACQ_2024_000001''])
     (holding ''ACQ_2024_000001'' without_metadata)
     = [(WARNING, Metadata_has_no_files ''ACQ_2024_000001'')] \<and>
   fst (lint_package [''ACQ_2024_000001''] (holding ''ACQ_2024_000001'' without_metadata))
     = Inl FileNotFoundError \<and>
   fst (main_loop [[''ACQ_2024_000001'']]
          \<lparr>valid = [], invalid = [], needs_review = [], counter = 0\<rparr>
          (holding ''ACQ_2024_000001'' without_metadata)) = Inl FileNotFoundError \<and>
   stdout (snd (main \<lparr>packages = [[''ACQ_2024_000001'']], log_folder = ''.''\<rparr>
          (holding ''ACQ_2024_000001'' without_metadata))) = []"
  by code_simp

end
